theory Spec2Isabelle
  imports Complex_Main "HOL-Library.Word"
begin

section \<open>Common data\<close>

text \<open>
  The repository holds two Arduino sketches for a Teensy 3.5: the turntable controller
  (``spinner'') and its predecessor \<^verbatim>\<open>teensySine.ino\<close>. Both synthesise two sine
  waves a quarter cycle apart from a lookup table.

  Modelling conventions: \<^verbatim>\<open>uint32_t\<close>, \<^verbatim>\<open>uint16_t\<close> and \<^verbatim>\<open>int8_t\<close> are words of that
  width. \<^verbatim>\<open>float\<close> and \<^verbatim>\<open>double\<close> values are real numbers, so rounding of the
  arithmetic is idealised, except in \<^verbatim>\<open>setGain\<close>, whose single-precision product is rounded
  as IEEE 754 binary32 does; comparisons, clamping and truncating casts are as in C. A
  division whose divisor is zero has no finite result and yields \<open>None\<close>. Undefined
  behaviour of C (a read outside an array, a cast whose value does not fit) is an
  \<open>error\<close> value.
\<close>

type_synonym u32 = "32 word"
type_synonym u16 = "16 word"
type_synonym i8 = "8 word"

datatype error = OutOfBounds nat | CastOverflow int | CastNotFinite

datatype level = LOW | HIGH

definition SAMPLES_PER_CYCLE :: nat where
  "SAMPLES_PER_CYCLE = 600"

definition DAC_RESOLUTION :: nat where
  "DAC_RESOLUTION = 12"

section \<open>The waveform sampler\<close>

text \<open>The two phase indices, \<^verbatim>\<open>waveIndexA\<close> and \<^verbatim>\<open>waveIndexB\<close>, with their initialisers.\<close>

record wave =
  waveIndexA :: u32
  waveIndexB :: u32

definition wave_init :: wave where
  "wave_init = \<lparr>waveIndexA = of_nat (SAMPLES_PER_CYCLE div 4), waveIndexB = 0\<rparr>"

text \<open>\<^verbatim>\<open>sineTable[i]\<close> for an array of \<open>length tbl\<close> entries.\<close>

definition read_sineTable :: "u16 list \<Rightarrow> u32 \<Rightarrow> error + u16" where
  "read_sineTable tbl i =
     (if unat i < length tbl then Inr (tbl ! unat i) else Inl (OutOfBounds (unat i)))"

text \<open>
  \<^verbatim>\<open>sample()\<close>, the timer callback (the same text in both sketches): the new indices and
  the values handed to \<^verbatim>\<open>analogWrite\<close> for \<^verbatim>\<open>DAC_PIN_A\<close> and \<^verbatim>\<open>DAC_PIN_B\<close>.
\<close>

definition sample :: "u16 list \<Rightarrow> wave \<Rightarrow> wave \<times> (error + u16) \<times> (error + u16)" where
  "sample tbl w =
     (let a = waveIndexA w + 1;
          b = waveIndexB w + 1;
          a = (if a > of_nat SAMPLES_PER_CYCLE then 0 else a);
          b = (if b > of_nat SAMPLES_PER_CYCLE then 0 else b)
      in (\<lparr>waveIndexA = a, waveIndexB = b\<rparr>, read_sineTable tbl a, read_sineTable tbl b))"

text \<open>The indices after \<open>n\<close> invocations of \<^verbatim>\<open>sample()\<close>.\<close>

primrec ticks :: "nat \<Rightarrow> u16 list \<Rightarrow> wave \<Rightarrow> wave" where
  "ticks 0 tbl w = w"
| "ticks (Suc n) tbl w = fst (sample tbl (ticks n tbl w))"

text \<open>The phase difference \<open>(waveIndexA - waveIndexB) mod N\<close>, on the integers.\<close>

definition phase_diff :: "wave \<Rightarrow> int" where
  "phase_diff w = (uint (waveIndexA w) - uint (waveIndexB w)) mod int SAMPLES_PER_CYCLE"

section \<open>The sine table\<close>

definition dacBitRange :: real where
  "dacBitRange = 2 ^ DAC_RESOLUTION - 1"

text \<open>The C conversion of a floating-point value to an integer type truncates towards zero.\<close>

definition c_trunc :: "real \<Rightarrow> int" where
  "c_trunc x = (if 0 \<le> x then \<lfloor>x\<rfloor> else \<lceil>x\<rceil>)"

text \<open>The sample before the cast, \<^verbatim>\<open>((1 + sin(((2.0*PI) / SAMPLES_PER_CYCLE) * i)) * dacBitRange) / 2\<close>.\<close>

definition sineSample :: "nat \<Rightarrow> real" where
  "sineSample i = ((1 + sin (((2 * pi) / real SAMPLES_PER_CYCLE) * real i)) * dacBitRange) / 2"

text \<open>
  \<^verbatim>\<open>createSineTable()\<close>: the loop over \<open>i = 0, ..., SAMPLES_PER_CYCLE - 1\<close> fills the
  array in order. The cast to \<^verbatim>\<open>uint16_t\<close> is defined because every sample lies in
  \<open>[0, 4095]\<close> (lemma \<open>sineSample_range\<close>).
\<close>

definition createSineTable :: "u16 list" where
  "createSineTable = map (\<lambda>i. word_of_int (c_trunc (sineSample i))) [0..<SAMPLES_PER_CYCLE]"

section \<open>The controller sketch\<close>

text \<open>The settings of the controller sketch that the control loop uses.\<close>

definition GEAR_RATIO :: real where
  "GEAR_RATIO = 7.342"

definition STEP_ANGLE :: real where
  "STEP_ANGLE = 7.5"

definition RPM_TOGGLE_LEFT :: real where
  "RPM_TOGGLE_LEFT = 33.333"

definition RPM_TOGGLE_RIGHT :: real where
  "RPM_TOGGLE_RIGHT = 45.000"

definition MIN_SINE_FREQ :: real where
  "MIN_SINE_FREQ = 10.0"

definition MAX_SINE_FREQ :: real where
  "MAX_SINE_FREQ = 75.0"

definition STEPPER_AMP_ADDRESS :: nat where
  "STEPPER_AMP_ADDRESS = 0x4B"

definition STEPPER_AMP_RES :: int where
  "STEPPER_AMP_RES = 64"

text \<open>
  What the sketch sends to its peripherals, in the order of the calls: the I2C
  transmission of one byte to the amplifier (\<^verbatim>\<open>beginTransmission\<close>, \<^verbatim>\<open>write\<close>,
  \<^verbatim>\<open>endTransmission\<close>), the platter rpm printed on the display, and \<^verbatim>\<open>timer.end()\<close> and
  \<^verbatim>\<open>timer.begin(sample, period)\<close> of the interval timer.
\<close>

datatype event =
    WireWrite nat i8
  | OledPrintRPM real
  | TimerEnd
  | TimerBegin "real option"

text \<open>A floating-point division: no finite result when the divisor is zero.\<close>

definition fdiv :: "real \<Rightarrow> real \<Rightarrow> real option" where
  "fdiv x y = (if y = 0 then None else Some (x / y))"

definition getSineFrequency :: "real \<Rightarrow> real" where
  "getSineFrequency stepperFrequency = ((360.0 / STEP_ANGLE) * (stepperFrequency / 60.0)) / 4.0"

definition getInterruptMicroseconds :: "real \<Rightarrow> real option" where
  "getInterruptMicroseconds f = fdiv 1000000.0 (f * real SAMPLES_PER_CYCLE)"

definition oledDisplayRPM :: "real \<Rightarrow> event list" where
  "oledDisplayRPM f =
     (let platterRPM = 4.0 * 60.0 * STEP_ANGLE * f / 360.0 / GEAR_RATIO
      in [OledPrintRPM platterRPM])"

text \<open>
  The cast \<^verbatim>\<open>(int8_t) x\<close> of a floating-point value: the fractional part is discarded; the
  behaviour is undefined when the integral part does not fit the type.
\<close>

definition float_to_int8 :: "real \<Rightarrow> error + i8" where
  "float_to_int8 x =
     (let t = c_trunc x
      in if - 128 \<le> t \<and> t \<le> 127 then Inr (word_of_int t) else Inl (CastOverflow t))"

text \<open>
  IEEE 754 binary32 rounding of a real number, to nearest with ties to even: the
  significand has 24 bits, the exponent of the unit in the last place is at least
  \<open>-126 - 23\<close> (subnormal numbers), and a result of magnitude \<open>2^128\<close> or more is infinite.
\<close>

definition round_half_even :: "real \<Rightarrow> int" where
  "round_half_even y =
     (let n = \<lfloor>y\<rfloor>; r = y - of_int n
      in if r < 1 / 2 then n else if 1 / 2 < r then n + 1 else if even n then n else n + 1)"

definition binary32_exponent :: "real \<Rightarrow> int" where
  "binary32_exponent x = max (- 126) \<lfloor>log 2 \<bar>x\<bar>\<rfloor>"

definition binary32_ulp :: "real \<Rightarrow> real" where
  "binary32_ulp x = 2 powr of_int (binary32_exponent x - 23)"

definition rnd32 :: "real \<Rightarrow> real" where
  "rnd32 x =
     (if x = 0 then 0
      else sgn x * (of_int (round_half_even (\<bar>x\<bar> / binary32_ulp x)) * binary32_ulp x))"

definition fl32 :: "real \<Rightarrow> real option" where
  "fl32 x = (if 2 ^ 128 \<le> \<bar>rnd32 x\<bar> then None else Some (rnd32 x))"

text \<open>
  \<^verbatim>\<open>setGain\<close>. In \<^verbatim>\<open>(STEPPER_AMP_RES-1) * sineFrequency / MAX_SINE_FREQ\<close> the product of the
  \<^verbatim>\<open>int\<close> 63 and the \<^verbatim>\<open>float\<close> is a \<^verbatim>\<open>float\<close>, rounded to binary32; the quotient by the
  constant 75.0 is then cast. The quotient is taken exactly: a binary32 value that is not a
  multiple of 75 is too far from one for the rounding of the division to reach it, so the
  cast sees the same integral part.
\<close>

definition setGain :: "real \<Rightarrow> error + event list" where
  "setGain f =
     (case fl32 (real_of_int (STEPPER_AMP_RES - 1) * f) of
        None \<Rightarrow> Inl CastNotFinite
      | Some product \<Rightarrow>
          (case float_to_int8 (product / MAX_SINE_FREQ) of
             Inl e \<Rightarrow> Inl e
           | Inr gain \<Rightarrow> Inr [WireWrite STEPPER_AMP_ADDRESS gain]))"

text \<open>
  The globals of the sketch that \<^verbatim>\<open>setup()\<close> and \<^verbatim>\<open>loop()\<close> read and write. \<open>encoder\<close> is
  the position held by the \<^verbatim>\<open>Encoder\<close> object: \<^verbatim>\<open>encoder.read()\<close> returns it,
  \<^verbatim>\<open>encoder.write(0)\<close> resets it, and turning the knob changes it between iterations.
  \<^verbatim>\<open>useEncoder\<close> is an \<^verbatim>\<open>int\<close> that only ever holds \<^verbatim>\<open>false\<close> or a negation.
\<close>

record spinner =
  freqLeft :: real
  freqRight :: real
  useEncoder :: bool
  encoderHasBeenPressed :: bool
  sineFrequency :: real
  interruptMicroseconds :: "real option"
  encoder :: "32 word"

text \<open>
  The pins one iteration of \<^verbatim>\<open>loop()\<close> reads: \<^verbatim>\<open>ENC_SWITCH_PIN\<close> in the first condition,
  \<^verbatim>\<open>ENC_SWITCH_PIN\<close> again in the \<^verbatim>\<open>else if\<close>, and \<^verbatim>\<open>FREQ_TOGGLE_PIN\<close>.
\<close>

record pins =
  encSwitch :: level
  encSwitch2 :: level
  freqToggle :: level

text \<open>\<^verbatim>\<open>setup()\<close> (a reserved word here, hence \<open>setup_sketch\<close>), given the level of \<^verbatim>\<open>FREQ_TOGGLE_PIN\<close>.\<close>

definition setup_sketch :: "level \<Rightarrow> error + (spinner \<times> event list)" where
  "setup_sketch toggle =
     (let fl = getSineFrequency (RPM_TOGGLE_LEFT * GEAR_RATIO);
          fr = getSineFrequency (RPM_TOGGLE_RIGHT * GEAR_RATIO);
          f = (if toggle = LOW then fl else fr);
          us = getInterruptMicroseconds f
      in case setGain f of
           Inl e \<Rightarrow> Inl e
         | Inr g \<Rightarrow>
             Inr (\<lparr>freqLeft = fl, freqRight = fr, useEncoder = False,
                   encoderHasBeenPressed = False, sineFrequency = f,
                   interruptMicroseconds = us, encoder = 0\<rparr>,
                  g @ oledDisplayRPM f @ [TimerBegin us]))"

text \<open>The first condition of \<^verbatim>\<open>loop()\<close>: the encoder switch is pressed and was not before.\<close>

definition toggle_edge :: "spinner \<Rightarrow> pins \<Rightarrow> bool" where
  "toggle_edge s p \<longleftrightarrow> \<not> encoderHasBeenPressed s \<and> encSwitch p = LOW"

text \<open>
  The candidate \<^verbatim>\<open>newFreq\<close> before the bounds are enforced: in manual mode the previous
  frequency plus a quarter of the encoder reading, otherwise the preset of the toggle.
\<close>

definition candidate :: "spinner \<Rightarrow> pins \<Rightarrow> real" where
  "candidate s p =
     (if useEncoder s then sineFrequency s + real_of_int (sint (encoder s)) / 4.0
      else if freqToggle p = LOW then freqLeft s else freqRight s)"

text \<open>``enforce reasonable sine frequency boundaries''.\<close>

definition enforce_bounds :: "real \<Rightarrow> real" where
  "enforce_bounds newFreq =
     (if newFreq < MIN_SINE_FREQ then MIN_SINE_FREQ
      else if newFreq > MAX_SINE_FREQ then MAX_SINE_FREQ
      else newFreq)"

text \<open>The body of ``update the interrupt and display only if necessary''.\<close>

definition cascade :: "spinner \<Rightarrow> real \<Rightarrow> error + (spinner \<times> event list)" where
  "cascade s newFreq =
     (let us = getInterruptMicroseconds newFreq;
          s' = s\<lparr>sineFrequency := newFreq, interruptMicroseconds := us\<rparr>
      in case setGain newFreq of
           Inl e \<Rightarrow> Inl e
         | Inr g \<Rightarrow> Inr (s', g @ oledDisplayRPM newFreq @ [TimerEnd, TimerBegin us]))"

text \<open>One iteration of \<^verbatim>\<open>loop()\<close>.\<close>

definition loop :: "spinner \<Rightarrow> pins \<Rightarrow> error + (spinner \<times> event list)" where
  "loop s p =
     (if toggle_edge s p
      then Inr (s\<lparr>encoderHasBeenPressed := True, useEncoder := \<not> useEncoder s, encoder := 0\<rparr>, [])
      else
        let s1 = (if encSwitch2 p = HIGH then s\<lparr>encoderHasBeenPressed := False\<rparr> else s);
            newFreq = enforce_bounds (candidate s1 p);
            s2 = (if useEncoder s1 then s1\<lparr>encoder := 0\<rparr> else s1)
        in if newFreq \<noteq> sineFrequency s2 then cascade s2 newFreq else Inr (s2, []))"

text \<open>
  The states the sketch can be in between two iterations: after \<^verbatim>\<open>setup()\<close>, after the knob
  has been turned to any position, and after an iteration of \<^verbatim>\<open>loop()\<close>.
\<close>

inductive reachable :: "spinner \<Rightarrow> bool" where
  after_setup: "setup_sketch toggle = Inr (s, ev) \<Longrightarrow> reachable s"
| knob_turned: "reachable s \<Longrightarrow> reachable (s\<lparr>encoder := e\<rparr>)"
| after_loop: "reachable s \<Longrightarrow> loop s p = Inr (s', ev) \<Longrightarrow> reachable s'"

text \<open>Counting the dispatches in a trace.\<close>

fun is_TimerBegin :: "event \<Rightarrow> bool" where
  "is_TimerBegin (TimerBegin us) = True"
| "is_TimerBegin e = False"

fun is_WireWrite :: "event \<Rightarrow> bool" where
  "is_WireWrite (WireWrite a g) = True"
| "is_WireWrite e = False"

fun is_OledPrintRPM :: "event \<Rightarrow> bool" where
  "is_OledPrintRPM (OledPrintRPM r) = True"
| "is_OledPrintRPM e = False"

definition timer_restarts :: "event list \<Rightarrow> nat" where
  "timer_restarts evs = length (filter is_TimerBegin evs)"

definition gain_writes :: "event list \<Rightarrow> nat" where
  "gain_writes evs = length (filter is_WireWrite evs)"

definition display_writes :: "event list \<Rightarrow> nat" where
  "display_writes evs = length (filter is_OledPrintRPM evs)"

text \<open>
  The gain of the specification, in its words: \<open>floor((RES - 1) \<sqdot> frequency / MAX_FREQ)\<close>,
  clamped to \<open>[0, RES - 1]\<close>. \<open>gain_clamped\<close> is the floor and the clamp of a quotient,
  \<open>gain_spec\<close> applies it to the quotient of the exact product. Both are compared with
  \<open>setGain\<close> below.
\<close>

definition gain_clamped :: "real \<Rightarrow> int" where
  "gain_clamped q = max 0 (min (STEPPER_AMP_RES - 1) \<lfloor>q\<rfloor>)"

definition gain_spec :: "real \<Rightarrow> int" where
  "gain_spec f = gain_clamped (real_of_int (STEPPER_AMP_RES - 1) * f / MAX_SINE_FREQ)"

subsection \<open>Concrete states and inputs\<close>

text \<open>
  The state \<^verbatim>\<open>setup()\<close> leaves when the frequency toggle reads \<open>LOW\<close> (lemma
  \<open>setup_sketch_LOW\<close>), and two pin readings: encoder switch released with the toggle
  right, and encoder switch held down.
\<close>

definition spinner_left :: spinner where
  "spinner_left =
     \<lparr>freqLeft = 48.9461772, freqRight = 66.078, useEncoder = False,
      encoderHasBeenPressed = False, sineFrequency = 48.9461772,
      interruptMicroseconds = Some (1000000 / (48.9461772 * 600)), encoder = 0\<rparr>"

definition pins_right :: pins where
  "pins_right = \<lparr>encSwitch = HIGH, encSwitch2 = HIGH, freqToggle = HIGH\<rparr>"

definition pins_pressed :: pins where
  "pins_pressed = \<lparr>encSwitch = LOW, encSwitch2 = LOW, freqToggle = LOW\<rparr>"

section \<open>The slider sketch\<close>

text \<open>
  \<^verbatim>\<open>teensySine.ino\<close> sets the frequency from a potentiometer. Its globals carry the prefix
  \<open>ts\<close> here, since the controller sketch uses the same names. A value that is not a finite
  number (the logarithm of a non-positive number, a division by zero) is \<open>None\<close>.
\<close>

definition ADC_RESOLUTION :: nat where
  "ADC_RESOLUTION = 13"

definition adcBitRange :: int where
  "adcBitRange = 2 ^ ADC_RESOLUTION"

record slider =
  ts_useSlider :: bool
  ts_vFreq :: int
  ts_stepperRPM :: "real option"
  ts_sineFrequency :: "real option"
  ts_interruptMicroseconds :: "real option"

definition flog10 :: "real \<Rightarrow> real option" where
  "flog10 x = (if 0 < x then Some (log 10 x) else None)"

text \<open>The initialisers of the globals.\<close>

definition ts_init :: slider where
  "ts_init =
     (let stepperRPM = 250.0;
          sineFrequency = ((360.0 / STEP_ANGLE) * (stepperRPM / 60.0)) / 4.0
      in \<lparr>ts_useSlider = True, ts_vFreq = 0, ts_stepperRPM = Some stepperRPM,
          ts_sineFrequency = Some sineFrequency,
          ts_interruptMicroseconds = fdiv 1000000.0 (sineFrequency * real SAMPLES_PER_CYCLE)\<rparr>)"

text \<open>One iteration of \<^verbatim>\<open>loop()\<close> of \<^verbatim>\<open>teensySine.ino\<close>, given the value of \<^verbatim>\<open>analogRead\<close>.\<close>

definition ts_loop :: "slider \<Rightarrow> int \<Rightarrow> slider \<times> event list" where
  "ts_loop s v =
     (if ts_useSlider s then
        let s = s\<lparr>ts_vFreq := v\<rparr>
        in if ts_vFreq s = 0 then (s\<lparr>ts_stepperRPM := Some 0\<rparr>, [])
           else
             let rpm = Option.bind (flog10 (real_of_int (ts_vFreq s) / real_of_int adcBitRange))
                         (\<lambda>l. fdiv (500.0 * 1.0) (1.0 - l));
                 sf = map_option (\<lambda>r. ((360.0 / STEP_ANGLE) * (r / 60.0)) / 4.0) rpm;
                 us = Option.bind sf (\<lambda>f. fdiv 1000000.0 (f * real SAMPLES_PER_CYCLE))
             in (s\<lparr>ts_stepperRPM := rpm, ts_sineFrequency := sf, ts_interruptMicroseconds := us\<rparr>,
                 [TimerEnd, TimerBegin us])
      else (s, []))"

section \<open>Properties of the sampler\<close>

lemma length_createSineTable: "length createSineTable = 600"
  by (simp add: createSineTable_def SAMPLES_PER_CYCLE_def)

lemma sample_step_lt:
  assumes "n < 450"
  shows "fst (sample tbl \<lparr>waveIndexA = of_nat (150 + n), waveIndexB = of_nat n\<rparr>)
       = \<lparr>waveIndexA = of_nat (150 + Suc n), waveIndexB = of_nat (Suc n)\<rparr>"
proof -
  have u: "unat (of_nat k :: u32) = k" if "k < 1000" for k
    using that by (simp add: unat_of_nat)
  have a: "unat (of_nat (151 + n) :: u32) = 151 + n"
    using assms by (intro u) simp
  have b: "unat (of_nat (Suc n) :: u32) = Suc n"
    using assms by (intro u) simp
  have a': "\<not> (of_nat (151 + n) :: u32) > 600"
    using assms unfolding word_less_nat_alt a by simp
  have b': "\<not> (of_nat (Suc n) :: u32) > 600"
    using assms unfolding word_less_nat_alt b by simp
  have a'': "(of_nat (150 + n) :: u32) + 1 = of_nat (151 + n)" by simp
  have b'': "(of_nat n :: u32) + 1 = of_nat (Suc n)" by simp
  show ?thesis
    using a' b' unfolding sample_def Let_def SAMPLES_PER_CYCLE_def
    by (simp add: a'' b'' del: of_nat_add of_nat_Suc)
qed

text \<open>For the first 450 ticks both indices simply count up.\<close>

lemma ticks_lt:
  "n \<le> 450 \<Longrightarrow> ticks n tbl wave_init = \<lparr>waveIndexA = of_nat (150 + n), waveIndexB = of_nat n\<rparr>"
proof (induction n)
  case 0
  then show ?case by (simp add: wave_init_def SAMPLES_PER_CYCLE_def)
next
  case (Suc n)
  then show ?case using sample_step_lt[of n tbl] by simp
qed

lemma ticks_450: "ticks 450 tbl wave_init = \<lparr>waveIndexA = 600, waveIndexB = 450\<rparr>"
  using ticks_lt[of 450 tbl] by simp

lemma ticks_451: "ticks 451 tbl wave_init = \<lparr>waveIndexA = 0, waveIndexB = 451\<rparr>"
proof -
  have "ticks 451 tbl wave_init = fst (sample tbl (ticks 450 tbl wave_init))"
    by (simp add: eval_nat_numeral)
  then show ?thesis
    by (simp add: ticks_450 sample_def SAMPLES_PER_CYCLE_def)
qed

text \<open>
  C1 (quadrature phase invariant). The wrap test of \<^verbatim>\<open>sample()\<close> is
  \<^verbatim>\<open>waveIndexA > SAMPLES_PER_CYCLE\<close>, so an index runs through \<open>0, ..., 600\<close>, a cycle of
  601 values. After the 451st invocation channel A has wrapped to 0 while channel B stands at
  451: the phase difference modulo \<open>N = 600\<close> is 149, not \<open>N/4 = 150\<close>.
\<close>

theorem sample_phase_diff_after_451:
  "ticks 451 createSineTable wave_init = \<lparr>waveIndexA = 0, waveIndexB = 451\<rparr>
   \<and> phase_diff (ticks 451 createSineTable wave_init) = 149
   \<and> int (SAMPLES_PER_CYCLE div 4) = 150"
  by (simp add: ticks_451 phase_diff_def SAMPLES_PER_CYCLE_def)

text \<open>
  C2 (index-bound safety). The 450th invocation of \<^verbatim>\<open>sample()\<close> from the initial state
  leaves \<^verbatim>\<open>waveIndexA = 600\<close>, which the test \<^verbatim>\<open>> SAMPLES_PER_CYCLE\<close> does not wrap, and
  reads \<^verbatim>\<open>sineTable[600]\<close>, one past the end of the 600-entry table.
\<close>

theorem sample_reads_past_end:
  "sample createSineTable (ticks 449 createSineTable wave_init)
   = (\<lparr>waveIndexA = 600, waveIndexB = 450\<rparr>, Inl (OutOfBounds 600), Inr (createSineTable ! 450))"
  using ticks_lt[of 449 createSineTable]
  by (simp add: sample_def SAMPLES_PER_CYCLE_def read_sineTable_def length_createSineTable)

section \<open>Properties of the sine table\<close>

lemma sineSample_range: "0 \<le> sineSample i \<and> sineSample i \<le> 4095"
proof -
  define s where "s = sin (((2 * pi) / real SAMPLES_PER_CYCLE) * real i)"
  have "-1 \<le> s" "s \<le> 1" by (simp_all add: s_def)
  then have "0 \<le> ((1 + s) * 4095) / 2 \<and> ((1 + s) * 4095) / 2 \<le> 4095" by simp
  moreover have "sineSample i = ((1 + s) * 4095) / 2"
    by (simp add: sineSample_def dacBitRange_def DAC_RESOLUTION_def s_def)
  ultimately show ?thesis by simp
qed

lemma c_trunc_sineSample: "c_trunc (sineSample i) = \<lfloor>sineSample i\<rfloor>"
  using sineSample_range[of i] by (simp add: c_trunc_def)

lemma floor_sineSample_range: "0 \<le> \<lfloor>sineSample i\<rfloor> \<and> \<lfloor>sineSample i\<rfloor> \<le> 4095"
  using sineSample_range[of i] by (simp add: le_floor_iff floor_le_iff)

lemma nth_createSineTable:
  "i < 600 \<Longrightarrow> createSineTable ! i = word_of_int \<lfloor>sineSample i\<rfloor>"
  by (simp add: createSineTable_def SAMPLES_PER_CYCLE_def c_trunc_sineSample)

lemma uint_nth_createSineTable:
  assumes "i < 600"
  shows "uint (createSineTable ! i) = \<lfloor>sineSample i\<rfloor>"
proof -
  have "uint (word_of_int \<lfloor>sineSample i\<rfloor> :: u16) = \<lfloor>sineSample i\<rfloor>"
    using floor_sineSample_range[of i] by (simp add: uint_word_of_int take_bit_int_eq_self)
  then show ?thesis using assms by (simp add: nth_createSineTable)
qed

lemma sineSample_0: "sineSample 0 = 4095 / 2"
  by (simp add: sineSample_def dacBitRange_def DAC_RESOLUTION_def)

lemma sineSample_300: "sineSample 300 = 4095 / 2"
  by (simp add: sineSample_def dacBitRange_def DAC_RESOLUTION_def SAMPLES_PER_CYCLE_def)

lemma sineSample_150: "sineSample 150 = 4095"
proof -
  have "((2 * pi) / 600) * 150 = pi / 2" by simp
  then show ?thesis
    by (simp add: sineSample_def dacBitRange_def DAC_RESOLUTION_def SAMPLES_PER_CYCLE_def)
qed

text \<open>The sine is odd about the half period: the samples at \<open>i\<close> and \<open>N - i\<close> add up to \<open>2^R - 1\<close>.\<close>

lemma sineSample_reflect:
  assumes "i \<le> 600"
  shows "sineSample (600 - i) = 4095 - sineSample i"
proof -
  have "((2 * pi) / 600) * real (600 - i) = 2 * pi - ((2 * pi) / 600) * real i"
    using assms by (simp add: of_nat_diff field_simps)
  then have "sin (((2 * pi) / 600) * real (600 - i)) = - sin (((2 * pi) / 600) * real i)"
    by (simp only: sin_2pi_minus)
  then show ?thesis
    by (simp add: sineSample_def dacBitRange_def DAC_RESOLUTION_def SAMPLES_PER_CYCLE_def field_simps)
qed

lemma sineSample_450: "sineSample 450 = 0"
  using sineSample_reflect[of 150] by (simp add: sineSample_150)

lemma floor_pair: "\<lfloor>x::real\<rfloor> + \<lfloor>4095 - x\<rfloor> \<in> {4094, 4095}"
proof -
  have "\<lfloor>4095 - x\<rfloor> = 4095 + \<lfloor>- x\<rfloor>"
    using floor_add_int[of "-x" 4095] by (simp add: add.commute)
  moreover have "\<lfloor>-x\<rfloor> = - \<lceil>x\<rceil>" by (simp add: ceiling_def)
  moreover have "\<lfloor>x\<rfloor> \<le> \<lceil>x\<rceil>"
  proof -
    have "of_int \<lfloor>x\<rfloor> \<le> x" "x \<le> of_int \<lceil>x\<rceil>" by simp_all
    then have "(of_int \<lfloor>x\<rfloor> :: real) \<le> of_int \<lceil>x\<rceil>" by (rule order_trans)
    then show ?thesis by (simp only: of_int_le_iff)
  qed
  moreover have "\<lceil>x\<rceil> - \<lfloor>x\<rfloor> \<le> 1"
    by (rule ceiling_diff_floor_le_1)
  ultimately have "\<lfloor>x\<rfloor> + \<lfloor>4095 - x\<rfloor> = 4094 \<or> \<lfloor>x\<rfloor> + \<lfloor>4095 - x\<rfloor> = 4095"
    by arith
  then show ?thesis by simp
qed

text \<open>
  C5 (table reflection symmetry), as stated: at \<open>i = 150\<close> the table holds the crest 4095 and
  at \<open>(N - i) mod N = 450\<close> the trough 0, which are not within one quantization unit.
\<close>

theorem table_reflection_counterexample:
  "uint (createSineTable ! 150) = 4095
   \<and> uint (createSineTable ! ((600 - 150) mod 600)) = 0
   \<and> \<not> \<bar>uint (createSineTable ! 150) - uint (createSineTable ! ((600 - 150) mod 600))\<bar> \<le> 1"
  by (simp add: uint_nth_createSineTable sineSample_150 sineSample_450)

text \<open>
  C5, amended: the table is symmetric about its midpoint, not about its axis. For every
  \<open>i\<close> in \<open>[0, N)\<close> the entries at \<open>i\<close> and \<open>(N - i) mod N\<close> add up to \<open>2^R - 1 = 4095\<close> within
  one quantization unit (the sum is 4094 or 4095, since both casts truncate).
\<close>

theorem table_point_symmetry:
  assumes "i < SAMPLES_PER_CYCLE"
  shows "uint (createSineTable ! i)
         + uint (createSineTable ! ((SAMPLES_PER_CYCLE - i) mod SAMPLES_PER_CYCLE))
         \<in> {4094, 4095}"
proof (cases "i = 0")
  case True
  then show ?thesis
    by (simp add: uint_nth_createSineTable sineSample_0 SAMPLES_PER_CYCLE_def)
next
  case False
  have i: "i < 600" using assms by (simp add: SAMPLES_PER_CYCLE_def)
  then have m: "(600 - i) mod 600 = 600 - i" "600 - i < 600" using False by simp_all
  have "sineSample (600 - i) = 4095 - sineSample i"
    using i by (intro sineSample_reflect) simp
  then show ?thesis
    using floor_pair[of "sineSample i"] i m
    by (simp add: uint_nth_createSineTable SAMPLES_PER_CYCLE_def)
qed

theorem table_point_symmetry_witness:
  "(150::nat) < SAMPLES_PER_CYCLE
   \<and> uint (createSineTable ! 150)
     + uint (createSineTable ! ((SAMPLES_PER_CYCLE - 150) mod SAMPLES_PER_CYCLE))
     \<in> {4094, 4095}"
proof -
  have h: "(150::nat) < SAMPLES_PER_CYCLE" by (simp add: SAMPLES_PER_CYCLE_def)
  show ?thesis using h table_point_symmetry [OF h] by simp
qed

text \<open>
  C8 (table endpoint value), as stated: the cast to \<^verbatim>\<open>uint16_t\<close> truncates the sample
  \<open>(1 + sin 0) \<sqdot> 4095 / 2 = 2047.5\<close>, so \<^verbatim>\<open>sineTable[0]\<close> is 2047 and not the rounded 2048.
\<close>

theorem table_endpoint_counterexample:
  "sineSample 0 = 2047.5 \<and> createSineTable ! 0 \<noteq> 2048"
  by (simp add: nth_createSineTable sineSample_0)

text \<open>
  C8, amended: \<^verbatim>\<open>sineTable[0]\<close> is \<open>floor((1 + sin 0) \<sqdot> (2^12 - 1) / 2) = 2047\<close>, and both
  \<^verbatim>\<open>sineTable[0]\<close> and \<^verbatim>\<open>sineTable[N/2]\<close> equal 2047, the midpoint 2047.5 truncated.
\<close>

theorem table_endpoints:
  "createSineTable ! 0 = word_of_int \<lfloor>(1 + sin 0) * (2 ^ 12 - 1) / 2 :: real\<rfloor>
   \<and> createSineTable ! 0 = 2047
   \<and> createSineTable ! (SAMPLES_PER_CYCLE div 2) = 2047"
  by (simp add: nth_createSineTable sineSample_0 sineSample_300 SAMPLES_PER_CYCLE_def)

section \<open>Properties of the controller\<close>

lemma enforce_bounds_range:
  "MIN_SINE_FREQ \<le> enforce_bounds f \<and> enforce_bounds f \<le> MAX_SINE_FREQ"
  by (simp add: enforce_bounds_def MIN_SINE_FREQ_def MAX_SINE_FREQ_def)

lemma enforce_bounds_id:
  "MIN_SINE_FREQ \<le> f \<Longrightarrow> f \<le> MAX_SINE_FREQ \<Longrightarrow> enforce_bounds f = f"
  by (simp add: enforce_bounds_def)

text \<open>Binary32 rounding.\<close>

lemma round_half_even_bounds: "\<lfloor>y\<rfloor> \<le> round_half_even y \<and> round_half_even y \<le> \<lceil>y\<rceil>"
proof -
  have "\<lfloor>y\<rfloor> \<le> \<lceil>y\<rceil>"
  proof -
    have "of_int \<lfloor>y\<rfloor> \<le> y" "y \<le> of_int \<lceil>y\<rceil>" by simp_all
    then have "(of_int \<lfloor>y\<rfloor> :: real) \<le> of_int \<lceil>y\<rceil>" by (rule order_trans)
    then show ?thesis by (simp only: of_int_le_iff)
  qed
  moreover have "\<lfloor>y\<rfloor> + 1 \<le> \<lceil>y\<rceil>" if "y - of_int \<lfloor>y\<rfloor> \<noteq> 0"
  proof -
    have "of_int \<lfloor>y\<rfloor> < y"
      using of_int_floor_le[of y] that by linarith
    moreover have "y \<le> of_int \<lceil>y\<rceil>" by simp
    ultimately have "(of_int \<lfloor>y\<rfloor> :: real) < of_int \<lceil>y\<rceil>" by (rule less_le_trans)
    then have "\<lfloor>y\<rfloor> < \<lceil>y\<rceil>" by (simp only: of_int_less_iff)
    then show ?thesis by simp
  qed
  ultimately show ?thesis
    by (auto simp: round_half_even_def Let_def)
qed

lemma binary32_ulp_small:
  assumes "x \<noteq> 0" "\<bar>x\<bar> < 2 ^ 24"
  shows "\<exists>k::nat. binary32_ulp x = 1 / 2 ^ k"
proof -
  have "log 2 \<bar>x\<bar> < 24"
    using assms by (simp add: log_less_iff powr_realpow[symmetric])
  then have "\<lfloor>log 2 \<bar>x\<bar>\<rfloor> \<le> 23" by (simp add: floor_le_iff)
  then have e: "binary32_exponent x \<le> 23" by (simp add: binary32_exponent_def)
  define k where "k = nat (23 - binary32_exponent x)"
  have "of_int (binary32_exponent x - 23) = - real k"
    using e by (simp add: k_def)
  then have "binary32_ulp x = 2 powr (- real k)" by (simp add: binary32_ulp_def)
  also have "\<dots> = 1 / 2 ^ k" by (simp add: powr_minus powr_realpow field_simps)
  finally show ?thesis by blast
qed

lemma rnd32_pos_bounds:
  assumes "0 < x" "of_int m \<le> x" "x \<le> of_int n" "n < 2 ^ 24"
  shows "of_int m \<le> rnd32 x \<and> rnd32 x \<le> of_int n"
proof -
  have "x < 2 ^ 24"
  proof -
    have "(of_int n :: real) < 2 ^ 24" using assms(4) by (metis of_int_less_numeral_power_cancel_iff)
    with assms(3) show ?thesis by simp
  qed
  then obtain k :: nat where u: "binary32_ulp x = 1 / 2 ^ k"
    using binary32_ulp_small[of x] assms(1) by auto
  define y where "y = x * 2 ^ k"
  have r: "rnd32 x = of_int (round_half_even y) / 2 ^ k"
    using assms(1) by (simp add: rnd32_def u y_def)
  have "y \<le> of_int (n * 2 ^ k)" using assms(3) by (simp add: y_def)
  then have "\<lceil>y\<rceil> \<le> n * 2 ^ k" by (simp add: ceiling_le_iff)
  then have up: "round_half_even y \<le> n * 2 ^ k"
    using round_half_even_bounds[of y] by simp
  have "of_int (m * 2 ^ k) \<le> y" using assms(2) by (simp add: y_def)
  then have "m * 2 ^ k \<le> \<lfloor>y\<rfloor>" by (simp add: le_floor_iff)
  then have lo: "m * 2 ^ k \<le> round_half_even y"
    using round_half_even_bounds[of y] by simp
  have "(of_int (m * 2 ^ k) :: real) \<le> of_int (round_half_even y)"
    using lo by (simp only: of_int_le_iff)
  then have 1: "of_int m \<le> rnd32 x" by (simp add: r field_simps)
  have "(of_int (round_half_even y) :: real) \<le> of_int (n * 2 ^ k)"
    using up by (simp only: of_int_le_iff)
  then have 2: "rnd32 x \<le> of_int n" by (simp add: r field_simps)
  show ?thesis using 1 2 by simp
qed

lemma rnd32_minus: "rnd32 (- x) = - rnd32 x"
  by (simp add: rnd32_def binary32_ulp_def binary32_exponent_def sgn_minus)

text \<open>Rounding does not cross an integer below \<open>2^24\<close> in magnitude: those are binary32 values.\<close>

lemma rnd32_bounds:
  assumes "of_int m \<le> x" "x \<le> of_int n" "- (2 ^ 24) < m" "n < 2 ^ 24"
  shows "of_int m \<le> rnd32 x \<and> rnd32 x \<le> of_int n"
proof -
  consider "x = 0" | "0 < x" | "x < 0" by linarith
  then show ?thesis
  proof cases
    case 1
    with assms show ?thesis by (simp add: rnd32_def)
  next
    case 2
    then show ?thesis using assms by (intro rnd32_pos_bounds) simp_all
  next
    case 3
    have "of_int (- n) \<le> rnd32 (- x) \<and> rnd32 (- x) \<le> of_int (- m)"
      using 3 assms by (intro rnd32_pos_bounds) simp_all
    then show ?thesis by (simp add: rnd32_minus)
  qed
qed


lemma binary32_exponent_eq:
  assumes "2 ^ k \<le> \<bar>x\<bar>" "\<bar>x\<bar> < 2 ^ Suc k"
  shows "binary32_exponent x = int k"
proof -
  have "(0::real) < 2 ^ k" by simp
  then have pos: "0 < \<bar>x\<bar>" using assms(1) by (rule less_le_trans)
  have "real k \<le> log 2 \<bar>x\<bar>"
    using assms(1) pos by (simp add: le_log_iff powr_realpow)
  moreover have "log 2 \<bar>x\<bar> < real k + 1"
    using assms(2) pos by (simp add: log_less_iff powr_realpow powr_add)
  ultimately have "\<lfloor>log 2 \<bar>x\<bar>\<rfloor> = int k"
    by (simp add: floor_eq_iff)
  then show ?thesis by (simp add: binary32_exponent_def)
qed

lemma rnd32_2100: "rnd32 (63 * (8738133 / 262144)) = 2100"
proof -
  let ?x = "63 * (8738133 / 262144) :: real"
  have e: "binary32_exponent ?x = int 11"
    by (rule binary32_exponent_eq) simp_all
  have u: "binary32_ulp ?x = 1 / 4096"
    unfolding binary32_ulp_def e by (simp add: powr_minus_divide)
  have y: "\<bar>?x\<bar> / (1 / 4096) = 8601599 + 43 / 64" by simp
  have f: "\<lfloor>8601599 + 43 / 64 :: real\<rfloor> = 8601599" by (simp add: floor_eq_iff)
  have r: "round_half_even (8601599 + 43 / 64) = 8601600"
    unfolding round_half_even_def Let_def f by simp
  have "rnd32 ?x = sgn ?x * (of_int (round_half_even (\<bar>?x\<bar> / (1 / 4096))) * (1 / 4096))"
    unfolding rnd32_def u by simp
  also have "\<dots> = 2100" unfolding y r by simp
  finally show ?thesis .
qed

text \<open>The product and the cast of \<^verbatim>\<open>setGain\<close> for a frequency within the bounds.\<close>

lemma gain_value_range:
  assumes "0 \<le> f" "f \<le> 75"
  shows "fl32 (63 * f) = Some (rnd32 (63 * f))"
    and "c_trunc (rnd32 (63 * f) / 75) = \<lfloor>rnd32 (63 * f) / 75\<rfloor>"
    and "0 \<le> \<lfloor>rnd32 (63 * f) / 75\<rfloor>"
    and "\<lfloor>rnd32 (63 * f) / 75\<rfloor> \<le> 63"
proof -
  have b: "0 \<le> rnd32 (63 * f) \<and> rnd32 (63 * f) \<le> 4725"
    using rnd32_bounds[of 0 "63 * f" 4725] assms by simp
  then have "\<bar>rnd32 (63 * f)\<bar> < 2 ^ 128" by simp
  then show "fl32 (63 * f) = Some (rnd32 (63 * f))" by (simp add: fl32_def)
  have nn: "0 \<le> rnd32 (63 * f) / 75" using b by simp
  then show "c_trunc (rnd32 (63 * f) / 75) = \<lfloor>rnd32 (63 * f) / 75\<rfloor>"
    by (simp add: c_trunc_def)
  show "0 \<le> \<lfloor>rnd32 (63 * f) / 75\<rfloor>" using nn by simp
  have "rnd32 (63 * f) / 75 \<le> 63" using b by simp
  then show "\<lfloor>rnd32 (63 * f) / 75\<rfloor> \<le> 63" by (simp add: floor_le_iff)
qed

lemma setGain_in_bounds:
  assumes "0 \<le> f" "f \<le> 75"
  shows "setGain f = Inr [WireWrite STEPPER_AMP_ADDRESS (word_of_int \<lfloor>rnd32 (63 * f) / 75\<rfloor>)]"
  using gain_value_range[OF assms]
  by (simp add: setGain_def float_to_int8_def STEPPER_AMP_RES_def MAX_SINE_FREQ_def)

text \<open>The gain for a product between two consecutive multiples of 75.\<close>

lemma floor_rnd32_gain:
  assumes "of_int (75 * k) \<le> 63 * f" "63 * f \<le> of_int (75 * k + 74)" "0 \<le> k" "k \<le> 63"
  shows "\<lfloor>rnd32 (63 * f) / 75\<rfloor> = k"
proof -
  have "of_int (75 * k) \<le> rnd32 (63 * f) \<and> rnd32 (63 * f) \<le> of_int (75 * k + 74)"
    using assms by (intro rnd32_bounds) simp_all
  then have "of_int k \<le> rnd32 (63 * f) / 75 \<and> rnd32 (63 * f) / 75 < of_int k + 1"
    by simp
  then show ?thesis by (simp add: floor_eq_iff)
qed

lemma sint_gain:
  assumes "- 128 \<le> k" "k \<le> 127"
  shows "sint (word_of_int k :: i8) = k"
  using assms by (simp add: sint_sbintrunc' signed_take_bit_int_eq_self)

lemma getInterruptMicroseconds_pos:
  "0 < f \<Longrightarrow> getInterruptMicroseconds f = Some (1000000 / (f * 600))"
  by (simp add: getInterruptMicroseconds_def fdiv_def SAMPLES_PER_CYCLE_def)

lemma cascade_in_bounds:
  assumes "MIN_SINE_FREQ \<le> f" "f \<le> MAX_SINE_FREQ"
  shows "cascade s f =
    Inr (s\<lparr>sineFrequency := f, interruptMicroseconds := Some (1000000 / (f * 600))\<rparr>,
         [WireWrite STEPPER_AMP_ADDRESS (word_of_int \<lfloor>rnd32 (63 * f) / 75\<rfloor>),
          OledPrintRPM (4.0 * 60.0 * STEP_ANGLE * f / 360.0 / GEAR_RATIO),
          TimerEnd, TimerBegin (Some (1000000 / (f * 600)))])"
proof -
  have f: "0 \<le> f" "f \<le> 75" "0 < f"
    using assms by (simp_all add: MIN_SINE_FREQ_def MAX_SINE_FREQ_def)
  show ?thesis
    by (simp add: cascade_def Let_def setGain_in_bounds[OF f(1,2)]
        getInterruptMicroseconds_pos[OF f(3)] oledDisplayRPM_def)
qed


lemma freqLeft_val: "getSineFrequency (RPM_TOGGLE_LEFT * GEAR_RATIO) = 48.9461772"
  by (simp add: getSineFrequency_def RPM_TOGGLE_LEFT_def GEAR_RATIO_def STEP_ANGLE_def)

lemma freqRight_val: "getSineFrequency (RPM_TOGGLE_RIGHT * GEAR_RATIO) = 66.078"
  by (simp add: getSineFrequency_def RPM_TOGGLE_RIGHT_def GEAR_RATIO_def STEP_ANGLE_def)

lemma floor_41: "\<lfloor>rnd32 (63 * 48.9461772) / 75\<rfloor> = 41"
  by (rule floor_rnd32_gain) simp_all

lemma setup_sketch_LOW:
  "setup_sketch LOW =
     Inr (spinner_left,
          [WireWrite STEPPER_AMP_ADDRESS 41,
           OledPrintRPM (4.0 * 60.0 * STEP_ANGLE * 48.9461772 / 360.0 / GEAR_RATIO),
           TimerBegin (Some (1000000 / (48.9461772 * 600)))])"
proof -
  have g: "setGain 48.9461772 = Inr [WireWrite STEPPER_AMP_ADDRESS 41]"
    using setGain_in_bounds[of "48.9461772"] floor_41 by simp
  show ?thesis
    using g getInterruptMicroseconds_pos[of "48.9461772"]
    by (simp add: setup_sketch_def Let_def freqLeft_val freqRight_val spinner_left_def
        oledDisplayRPM_def)
qed

lemma setup_sketch_inv:
  assumes "setup_sketch t = Inr (s, ev)"
  shows "MIN_SINE_FREQ \<le> sineFrequency s \<and> sineFrequency s \<le> MAX_SINE_FREQ
         \<and> interruptMicroseconds s = Some (1000000 / (sineFrequency s * 600))"
proof -
  define f :: real where "f = (if t = LOW then 48.9461772 else 66.078)"
  have f: "0 \<le> f" "f \<le> 75" "0 < f" "10 \<le> f" by (simp_all add: f_def)
  have "setup_sketch t =
      Inr (\<lparr>freqLeft = 48.9461772, freqRight = 66.078, useEncoder = False,
            encoderHasBeenPressed = False, sineFrequency = f,
            interruptMicroseconds = Some (1000000 / (f * 600)), encoder = 0\<rparr>,
           [WireWrite STEPPER_AMP_ADDRESS (word_of_int \<lfloor>rnd32 (63 * f) / 75\<rfloor>)]
           @ oledDisplayRPM f @ [TimerBegin (Some (1000000 / (f * 600)))])"
    unfolding setup_sketch_def Let_def freqLeft_val freqRight_val f_def[symmetric]
    by (simp add: setGain_in_bounds[OF f(1,2)] getInterruptMicroseconds_pos[OF f(3)])
  with assms f show ?thesis
    by (auto simp: MIN_SINE_FREQ_def MAX_SINE_FREQ_def)
qed

lemma loop_edge:
  "toggle_edge s p \<Longrightarrow>
   loop s p = Inr (s\<lparr>encoderHasBeenPressed := True, useEncoder := \<not> useEncoder s, encoder := 0\<rparr>, [])"
  by (simp add: loop_def)

text \<open>The state in which the bounds are enforced, and the one the comparison reads.\<close>

lemma loop_no_edge:
  assumes "\<not> toggle_edge s p"
  defines "s1 \<equiv> (if encSwitch2 p = HIGH then s\<lparr>encoderHasBeenPressed := False\<rparr> else s)"
  defines "s2 \<equiv> (if useEncoder s then s1\<lparr>encoder := 0\<rparr> else s1)"
  defines "f \<equiv> enforce_bounds (candidate s p)"
  shows "loop s p =
     (if f \<noteq> sineFrequency s
      then Inr (s2\<lparr>sineFrequency := f, interruptMicroseconds := Some (1000000 / (f * 600))\<rparr>,
                [WireWrite STEPPER_AMP_ADDRESS (word_of_int \<lfloor>rnd32 (63 * f) / 75\<rfloor>),
                 OledPrintRPM (4.0 * 60.0 * STEP_ANGLE * f / 360.0 / GEAR_RATIO),
                 TimerEnd, TimerBegin (Some (1000000 / (f * 600)))])
      else Inr (s2, []))"
proof -
  have c: "candidate s1 p = candidate s p" by (simp add: s1_def candidate_def)
  have u: "useEncoder s1 = useEncoder s" by (simp add: s1_def)
  have sf: "sineFrequency s2 = sineFrequency s" by (simp add: s2_def s1_def)
  have b: "MIN_SINE_FREQ \<le> f" "f \<le> MAX_SINE_FREQ"
    using enforce_bounds_range[of "candidate s p"] by (simp_all add: f_def)
  have "loop s p = (if f \<noteq> sineFrequency s2 then cascade s2 f else Inr (s2, []))"
    using assms(1) unfolding loop_def Let_def s1_def[symmetric] c u s2_def[symmetric] f_def[symmetric]
    by simp
  then show ?thesis
    by (simp add: sf cascade_in_bounds[OF b])
qed

lemma loop_total: "\<exists>s' ev. loop s p = Inr (s', ev)"
proof (cases "toggle_edge s p")
  case True
  then show ?thesis by (simp add: loop_edge)
next
  case False
  then show ?thesis by (simp add: loop_no_edge)
qed

lemma loop_inv:
  assumes "MIN_SINE_FREQ \<le> sineFrequency s \<and> sineFrequency s \<le> MAX_SINE_FREQ
           \<and> interruptMicroseconds s = Some (1000000 / (sineFrequency s * 600))"
    and "loop s p = Inr (s', ev)"
  shows "MIN_SINE_FREQ \<le> sineFrequency s' \<and> sineFrequency s' \<le> MAX_SINE_FREQ
         \<and> interruptMicroseconds s' = Some (1000000 / (sineFrequency s' * 600))"
proof (cases "toggle_edge s p")
  case True
  with assms show ?thesis by (auto simp: loop_edge)
next
  case False
  show ?thesis
    using assms enforce_bounds_range[of "candidate s p"]
    by (auto simp: loop_no_edge[OF False] split: if_splits)
qed

lemma reachable_inv:
  "reachable s \<Longrightarrow>
   MIN_SINE_FREQ \<le> sineFrequency s \<and> sineFrequency s \<le> MAX_SINE_FREQ
   \<and> interruptMicroseconds s = Some (1000000 / (sineFrequency s * 600))"
proof (induction rule: reachable.induct)
  case (after_setup toggle s ev)
  then show ?case by (rule setup_sketch_inv)
next
  case (knob_turned s e)
  then show ?case by simp
next
  case (after_loop s p s' ev)
  then show ?case using loop_inv by blast
qed

text \<open>
  C3 (frequency clamping). From every state the sketch can reach, for every position the
  encoder has been turned to and every reading of the pins, one iteration of \<^verbatim>\<open>loop()\<close>
  returns with the stored frequency in \<open>[MIN_SINE_FREQ, MAX_SINE_FREQ]\<close>; the divisor of
  \<^verbatim>\<open>getInterruptMicroseconds\<close> is then not zero, so \<^verbatim>\<open>interruptMicroseconds\<close> is the
  finite number \<open>1000000 / (sineFrequency \<sqdot> 600)\<close>.
\<close>

theorem loop_frequency_clamped:
  assumes "reachable s"
  shows "\<exists>s' ev. loop (s\<lparr>encoder := e\<rparr>) p = Inr (s', ev)
           \<and> MIN_SINE_FREQ \<le> sineFrequency s' \<and> sineFrequency s' \<le> MAX_SINE_FREQ
           \<and> sineFrequency s' * real SAMPLES_PER_CYCLE \<noteq> 0
           \<and> interruptMicroseconds s' = getInterruptMicroseconds (sineFrequency s')
           \<and> interruptMicroseconds s' = Some (1000000 / (sineFrequency s' * real SAMPLES_PER_CYCLE))"
proof -
  obtain s' ev where l: "loop (s\<lparr>encoder := e\<rparr>) p = Inr (s', ev)"
    using loop_total by blast
  have "reachable (s\<lparr>encoder := e\<rparr>)" using assms by (rule knob_turned)
  then have "reachable s'" using l by (rule after_loop)
  then have i: "MIN_SINE_FREQ \<le> sineFrequency s' \<and> sineFrequency s' \<le> MAX_SINE_FREQ
      \<and> interruptMicroseconds s' = Some (1000000 / (sineFrequency s' * 600))"
    by (rule reachable_inv)
  then have "0 < sineFrequency s'" by (simp add: MIN_SINE_FREQ_def)
  with i l show ?thesis
    by (simp add: getInterruptMicroseconds_pos SAMPLES_PER_CYCLE_def)
qed

lemma reachable_spinner_left: "reachable spinner_left"
  using setup_sketch_LOW by (rule after_setup)

theorem loop_frequency_clamped_witness:
  "reachable spinner_left
   \<and> (\<exists>s' ev. loop (spinner_left\<lparr>encoder := 1000\<rparr>) pins_right = Inr (s', ev)
           \<and> MIN_SINE_FREQ \<le> sineFrequency s' \<and> sineFrequency s' \<le> MAX_SINE_FREQ
           \<and> sineFrequency s' * real SAMPLES_PER_CYCLE \<noteq> 0
           \<and> interruptMicroseconds s' = getInterruptMicroseconds (sineFrequency s')
           \<and> interruptMicroseconds s' = Some (1000000 / (sineFrequency s' * real SAMPLES_PER_CYCLE)))"
  using reachable_spinner_left loop_frequency_clamped [OF reachable_spinner_left, of 1000 pins_right]
  by simp

text \<open>
  C10 (mode-toggle edge). When \<^verbatim>\<open>encoderHasBeenPressed\<close> is false and the encoder switch
  reads \<open>LOW\<close>, the iteration toggles \<^verbatim>\<open>useEncoder\<close>, sets the debounce flag, resets the
  encoder to 0 and returns: no other global changes (frequency and period are as before),
  nothing is sent to the timer, the amplifier or the display, and the result does not
  depend on the position the encoder had, so that delta is never applied.
\<close>

theorem loop_mode_toggle_frame:
  assumes "\<not> encoderHasBeenPressed s" and "encSwitch p = LOW"
  shows "loop s p = Inr (s\<lparr>encoderHasBeenPressed := True, useEncoder := \<not> useEncoder s, encoder := 0\<rparr>, [])
         \<and> loop (s\<lparr>encoder := e\<rparr>) p = loop s p"
  using assms by (simp add: loop_def toggle_edge_def)

theorem loop_mode_toggle_frame_witness:
  "\<not> encoderHasBeenPressed (spinner_left\<lparr>encoder := 8\<rparr>) \<and> encSwitch pins_pressed = LOW
   \<and> loop (spinner_left\<lparr>encoder := 8\<rparr>) pins_pressed
       = Inr (spinner_left\<lparr>encoderHasBeenPressed := True, useEncoder := True, encoder := 0\<rparr>, [])
   \<and> loop (spinner_left\<lparr>encoder := 8\<rparr>) pins_pressed = loop spinner_left pins_pressed"
proof -
  have h1: "\<not> encoderHasBeenPressed (spinner_left\<lparr>encoder := 8\<rparr>)" by (simp add: spinner_left_def)
  have h2: "encSwitch pins_pressed = LOW" by (simp add: pins_pressed_def)
  show ?thesis
    using h1 h2 loop_mode_toggle_frame [OF h1 h2, of 0] loop_mode_toggle_frame [of spinner_left pins_pressed 8]
    by (simp add: spinner_left_def)
qed

text \<open>
  C9 (gain within the clamped range). \<^verbatim>\<open>setGain\<close> has no clamp of its own, but for every
  frequency in \<open>[MIN_SINE_FREQ, MAX_SINE_FREQ]\<close>, which is what \<open>enforce_bounds\<close> hands to it
  (lemma \<open>enforce_bounds_range\<close>), the cast to \<^verbatim>\<open>int8_t\<close> is defined and the byte written
  to the amplifier lies in \<open>[0, STEPPER_AMP_RES - 1]\<close>.
\<close>

theorem setGain_no_overflow:
  assumes "MIN_SINE_FREQ \<le> f" and "f \<le> MAX_SINE_FREQ"
  shows "\<exists>product gain.
           fl32 (real_of_int (STEPPER_AMP_RES - 1) * f) = Some product
           \<and> float_to_int8 (product / MAX_SINE_FREQ) = Inr gain
           \<and> setGain f = Inr [WireWrite STEPPER_AMP_ADDRESS gain]
           \<and> 0 \<le> sint gain \<and> sint gain \<le> STEPPER_AMP_RES - 1"
proof -
  have f: "0 \<le> f" "f \<le> 75"
    using assms by (simp_all add: MIN_SINE_FREQ_def MAX_SINE_FREQ_def)
  note g = gain_value_range[OF f]
  have p: "fl32 (real_of_int (STEPPER_AMP_RES - 1) * f) = Some (rnd32 (63 * f))"
    using g(1) by (simp add: STEPPER_AMP_RES_def)
  have c: "float_to_int8 (rnd32 (63 * f) / MAX_SINE_FREQ)
           = Inr (word_of_int \<lfloor>rnd32 (63 * f) / 75\<rfloor>)"
    using g by (simp add: float_to_int8_def MAX_SINE_FREQ_def)
  have "sint (word_of_int \<lfloor>rnd32 (63 * f) / 75\<rfloor> :: i8) = \<lfloor>rnd32 (63 * f) / 75\<rfloor>"
    using g(3,4) by (intro sint_gain) simp_all
  then show ?thesis
    using p c g setGain_in_bounds[OF f] by (simp add: STEPPER_AMP_RES_def)
qed

theorem setGain_no_overflow_witness:
  "MIN_SINE_FREQ \<le> 10 \<and> 10 \<le> MAX_SINE_FREQ
   \<and> (\<exists>product gain.
           fl32 (real_of_int (STEPPER_AMP_RES - 1) * 10) = Some product
           \<and> float_to_int8 (product / MAX_SINE_FREQ) = Inr gain
           \<and> setGain 10 = Inr [WireWrite STEPPER_AMP_ADDRESS gain]
           \<and> 0 \<le> sint gain \<and> sint gain \<le> STEPPER_AMP_RES - 1)"
proof -
  have h1: "MIN_SINE_FREQ \<le> 10" by (simp add: MIN_SINE_FREQ_def)
  have h2: "10 \<le> MAX_SINE_FREQ" by (simp add: MAX_SINE_FREQ_def)
  show ?thesis using h1 h2 setGain_no_overflow [OF h1 h2] by simp
qed

text \<open>What \<^verbatim>\<open>setGain\<close> returns, by the rounded product.\<close>

lemma setGain_cases:
  "setGain f =
     (if 2 ^ 128 \<le> \<bar>rnd32 (63 * f)\<bar> then Inl CastNotFinite
      else if - 128 \<le> c_trunc (rnd32 (63 * f) / 75) \<and> c_trunc (rnd32 (63 * f) / 75) \<le> 127
      then Inr [WireWrite STEPPER_AMP_ADDRESS (word_of_int (c_trunc (rnd32 (63 * f) / 75)))]
      else Inl (CastOverflow (c_trunc (rnd32 (63 * f) / 75))))"
  by (simp add: setGain_def fl32_def float_to_int8_def Let_def STEPPER_AMP_RES_def
      MAX_SINE_FREQ_def)





text \<open>
  Where the product is rounded up onto a multiple of 75, the code written is one more than
  the floor of the exact quotient: the frequency \<open>8738133 / 262144\<close> (a binary32 value near
  33.33) has the exact product \<open>2099.99992\<close>, the binary32 product 2100, and the code 28
  where the exact quotient \<open>27.999999\<close> has the floor 27.
\<close>

lemma setGain_product_rounds_up:
  "setGain (8738133 / 262144) = Inr [WireWrite STEPPER_AMP_ADDRESS 28]
   \<and> gain_spec (8738133 / 262144) = 27"
proof -
  have a: "setGain (8738133 / 262144) = Inr [WireWrite STEPPER_AMP_ADDRESS 28]"
    unfolding setGain_cases rnd32_2100 by (simp add: c_trunc_def)
  have "\<lfloor>63 * (8738133 / 262144) / 75 :: real\<rfloor> = 27" by (simp add: floor_eq_iff)
  then have b: "gain_spec (8738133 / 262144) = 27"
    by (simp add: gain_spec_def gain_clamped_def STEPPER_AMP_RES_def MAX_SINE_FREQ_def)
  show ?thesis using a b by simp
qed



lemma enforce_bounds_idem: "enforce_bounds (enforce_bounds f) = enforce_bounds f"
  using enforce_bounds_range[of f] by (simp add: enforce_bounds_id)

lemma counts_nil:
  "timer_restarts [] = 0" "gain_writes [] = 0" "display_writes [] = 0"
  by (simp_all add: timer_restarts_def gain_writes_def display_writes_def)

lemma counts_cascade:
  "timer_restarts [WireWrite a g, OledPrintRPM r, TimerEnd, TimerBegin u] = 1"
  "gain_writes [WireWrite a g, OledPrintRPM r, TimerEnd, TimerBegin u] = 1"
  "display_writes [WireWrite a g, OledPrintRPM r, TimerEnd, TimerBegin u] = 1"
  by (simp_all add: timer_restarts_def gain_writes_def display_writes_def)

text \<open>An iteration either sends nothing and keeps the frequency, or sends one cascade and changes it.\<close>

lemma loop_events_cases:
  assumes "loop s p = Inr (s', ev)"
  shows "(ev = [] \<and> sineFrequency s' = sineFrequency s
            \<and> interruptMicroseconds s' = interruptMicroseconds s)
         \<or> (\<exists>g r u. ev = [WireWrite STEPPER_AMP_ADDRESS g, OledPrintRPM r, TimerEnd, TimerBegin u]
               \<and> sineFrequency s' \<noteq> sineFrequency s)"
proof (cases "toggle_edge s p")
  case True
  with assms show ?thesis by (auto simp: loop_edge)
next
  case False
  show ?thesis
    using assms by (auto simp: loop_no_edge[OF False] split: if_splits)
qed

text \<open>What an iteration past the first condition leaves behind.\<close>

lemma loop_no_edge_post:
  assumes "\<not> toggle_edge s p" and "loop s p = Inr (s1, ev1)"
  shows "sineFrequency s1 = enforce_bounds (candidate s p)"
    and "useEncoder s1 = useEncoder s"
    and "useEncoder s \<longrightarrow> encoder s1 = 0"
    and "freqLeft s1 = freqLeft s" and "freqRight s1 = freqRight s"
  using assms(2) by (auto simp: loop_no_edge[OF assms(1)] split: if_splits)

lemma loop_repeat_silent:
  assumes ne: "\<not> toggle_edge s p"
    and l1: "loop s p = Inr (s1, ev1)" and l2: "loop s1 p = Inr (s2, ev2)"
  shows "ev2 = []"
proof (cases "toggle_edge s1 p")
  case True
  with l2 show ?thesis by (simp add: loop_edge)
next
  case False
  note post = loop_no_edge_post[OF ne l1]
  have "candidate s1 p = (if useEncoder s then enforce_bounds (candidate s p) else candidate s p)"
    using post by (simp add: candidate_def)
  then have "enforce_bounds (candidate s1 p) = sineFrequency s1"
    using post(1) by (simp add: enforce_bounds_idem)
  with l2 show ?thesis by (simp add: loop_no_edge[OF False])
qed

text \<open>
  C4 (idempotent recompute cascade). The raw input of an iteration is the pin readings and
  the encoder position it finds; the iteration consumes the position and resets it. Two
  iterations with the same pin readings, the second on the state the first left, never send
  two timer restarts, two gain writes or two display writes. They send exactly one of each
  whenever they send anything, which is whenever the frequency changes; an input that calls
  for a new frequency has its one cascade in the first iteration and none in the second.
  An iteration whose clamped candidate equals the current frequency sends nothing and keeps
  frequency and period.
\<close>

theorem loop_cascade_idempotent:
  assumes l1: "loop s p = Inr (s1, ev1)" and l2: "loop s1 p = Inr (s2, ev2)"
  shows "timer_restarts (ev1 @ ev2) \<le> 1 \<and> gain_writes (ev1 @ ev2) \<le> 1
         \<and> display_writes (ev1 @ ev2) \<le> 1
         \<and> (sineFrequency s2 \<noteq> sineFrequency s \<longrightarrow>
              timer_restarts (ev1 @ ev2) = 1 \<and> gain_writes (ev1 @ ev2) = 1
              \<and> display_writes (ev1 @ ev2) = 1)
         \<and> (ev1 @ ev2 \<noteq> [] \<longrightarrow>
              timer_restarts (ev1 @ ev2) = 1 \<and> gain_writes (ev1 @ ev2) = 1
              \<and> display_writes (ev1 @ ev2) = 1)
         \<and> (\<not> toggle_edge s p \<and> enforce_bounds (candidate s p) \<noteq> sineFrequency s \<longrightarrow>
              timer_restarts ev1 = 1 \<and> gain_writes ev1 = 1 \<and> display_writes ev1 = 1
              \<and> ev2 = [])
         \<and> (\<not> toggle_edge s p \<and> enforce_bounds (candidate s p) = sineFrequency s \<longrightarrow>
              ev1 = [] \<and> sineFrequency s1 = sineFrequency s
              \<and> interruptMicroseconds s1 = interruptMicroseconds s)"
proof -
  have noop: "ev1 = [] \<and> sineFrequency s1 = sineFrequency s
              \<and> interruptMicroseconds s1 = interruptMicroseconds s"
    if "\<not> toggle_edge s p" "enforce_bounds (candidate s p) = sineFrequency s"
    using l1 that by (auto simp: loop_no_edge[OF that(1)])
  note c1 = loop_events_cases[OF l1]
  note c2 = loop_events_cases[OF l2]
  have one: "ev1 = [] \<or> ev2 = []"
  proof (cases "toggle_edge s p")
    case True
    with l1 show ?thesis by (simp add: loop_edge)
  next
    case False
    then show ?thesis using loop_repeat_silent[OF False l1 l2] by simp
  qed
  have counts: "timer_restarts (ev1 @ ev2) \<le> 1 \<and> gain_writes (ev1 @ ev2) \<le> 1
         \<and> display_writes (ev1 @ ev2) \<le> 1
         \<and> (sineFrequency s2 \<noteq> sineFrequency s \<longrightarrow>
              timer_restarts (ev1 @ ev2) = 1 \<and> gain_writes (ev1 @ ev2) = 1
              \<and> display_writes (ev1 @ ev2) = 1)"
    using one c1 c2 by (auto simp: counts_nil counts_cascade)
  have any: "timer_restarts (ev1 @ ev2) = 1 \<and> gain_writes (ev1 @ ev2) = 1
             \<and> display_writes (ev1 @ ev2) = 1"
    if "ev1 @ ev2 \<noteq> []"
    using that one c1 c2 by (auto simp: counts_nil counts_cascade)
  have fire: "timer_restarts ev1 = 1 \<and> gain_writes ev1 = 1 \<and> display_writes ev1 = 1 \<and> ev2 = []"
    if "\<not> toggle_edge s p" "enforce_bounds (candidate s p) \<noteq> sineFrequency s"
  proof -
    have "ev1 \<noteq> []" using l1 that by (auto simp: loop_no_edge[OF that(1)])
    moreover have "ev2 = []" using loop_repeat_silent[OF that(1) l1 l2] .
    ultimately show ?thesis using c1 by (auto simp: counts_cascade)
  qed
  show ?thesis using counts any fire noop by blast
qed

lemma floor_55: "\<lfloor>rnd32 (63 * 66.078) / 75\<rfloor> = 55"
  by (rule floor_rnd32_gain) simp_all

lemma loop_left_to_right:
  "loop spinner_left pins_right =
     Inr (spinner_left\<lparr>sineFrequency := 66.078,
                        interruptMicroseconds := Some (1000000 / (66.078 * 600))\<rparr>,
          [WireWrite STEPPER_AMP_ADDRESS 55,
           OledPrintRPM (4.0 * 60.0 * STEP_ANGLE * 66.078 / 360.0 / GEAR_RATIO),
           TimerEnd, TimerBegin (Some (1000000 / (66.078 * 600)))])"
proof -
  have ne: "\<not> toggle_edge spinner_left pins_right"
    by (simp add: toggle_edge_def pins_right_def)
  have f: "enforce_bounds (candidate spinner_left pins_right) = 66.078"
    by (simp add: candidate_def enforce_bounds_def spinner_left_def pins_right_def
        MIN_SINE_FREQ_def MAX_SINE_FREQ_def)
  show ?thesis
    unfolding loop_no_edge[OF ne] f
    using floor_55
    by (simp add: spinner_left_def pins_right_def)
qed

lemma loop_right_again:
  "loop (spinner_left\<lparr>sineFrequency := 66.078,
                      interruptMicroseconds := Some (1000000 / (66.078 * 600))\<rparr>) pins_right =
     Inr (spinner_left\<lparr>sineFrequency := 66.078,
                        interruptMicroseconds := Some (1000000 / (66.078 * 600))\<rparr>, [])"
proof -
  let ?s = "spinner_left\<lparr>sineFrequency := 66.078,
                      interruptMicroseconds := Some (1000000 / (66.078 * 600))\<rparr>"
  have ne: "\<not> toggle_edge ?s pins_right"
    by (simp add: toggle_edge_def pins_right_def)
  have f: "enforce_bounds (candidate ?s pins_right) = sineFrequency ?s"
    by (simp add: candidate_def enforce_bounds_def spinner_left_def pins_right_def
        MIN_SINE_FREQ_def MAX_SINE_FREQ_def)
  show ?thesis
    unfolding loop_no_edge[OF ne] f
    by (simp add: spinner_left_def pins_right_def)
qed

theorem loop_cascade_idempotent_witness:
  "loop spinner_left pins_right =
     Inr (spinner_left\<lparr>sineFrequency := 66.078,
                        interruptMicroseconds := Some (1000000 / (66.078 * 600))\<rparr>,
          [WireWrite STEPPER_AMP_ADDRESS 55,
           OledPrintRPM (4.0 * 60.0 * STEP_ANGLE * 66.078 / 360.0 / GEAR_RATIO),
           TimerEnd, TimerBegin (Some (1000000 / (66.078 * 600)))])
   \<and> loop (spinner_left\<lparr>sineFrequency := 66.078,
                        interruptMicroseconds := Some (1000000 / (66.078 * 600))\<rparr>) pins_right =
       Inr (spinner_left\<lparr>sineFrequency := 66.078,
                          interruptMicroseconds := Some (1000000 / (66.078 * 600))\<rparr>, [])
   \<and> timer_restarts
        ([WireWrite STEPPER_AMP_ADDRESS 55,
          OledPrintRPM (4.0 * 60.0 * STEP_ANGLE * 66.078 / 360.0 / GEAR_RATIO),
          TimerEnd, TimerBegin (Some (1000000 / (66.078 * 600)))] @ []) = 1
   \<and> gain_writes
        ([WireWrite STEPPER_AMP_ADDRESS 55,
          OledPrintRPM (4.0 * 60.0 * STEP_ANGLE * 66.078 / 360.0 / GEAR_RATIO),
          TimerEnd, TimerBegin (Some (1000000 / (66.078 * 600)))] @ []) = 1
   \<and> display_writes
        ([WireWrite STEPPER_AMP_ADDRESS 55,
          OledPrintRPM (4.0 * 60.0 * STEP_ANGLE * 66.078 / 360.0 / GEAR_RATIO),
          TimerEnd, TimerBegin (Some (1000000 / (66.078 * 600)))] @ []) = 1"
  using loop_left_to_right loop_right_again
    loop_cascade_idempotent [OF loop_left_to_right loop_right_again]
  by (simp add: spinner_left_def)

section \<open>Properties of the slider sketch\<close>

text \<open>
  The loop of \<^verbatim>\<open>teensySine.ino\<close> compares nothing with the current frequency: every
  iteration with a non-zero reading stops and restarts the timer, also when the reading
  is the one of the iteration before.
\<close>

lemma ts_loop_restarts_every_time:
  assumes "ts_useSlider s" and "v \<noteq> 0"
  shows "timer_restarts (snd (ts_loop s v)) = 1
         \<and> timer_restarts (snd (ts_loop (fst (ts_loop s v)) v)) = 1"
  using assms by (simp add: ts_loop_def Let_def timer_restarts_def)

text \<open>
  C6 (zero reading). With a reading of 0 the iteration sets \<^verbatim>\<open>stepperRPM\<close> to 0 and returns
  before the logarithm. The frequency stays at 50 Hz and the period at \<open>100/3\<close> microseconds,
  and the timer is not stopped (``TODO disable interrupt''): sampling goes on as before.
\<close>

theorem ts_loop_zero_reading:
  "ts_loop ts_init 0 = (ts_init\<lparr>ts_vFreq := 0, ts_stepperRPM := Some 0\<rparr>, [])
   \<and> ts_sineFrequency (fst (ts_loop ts_init 0)) = Some 50
   \<and> ts_interruptMicroseconds (fst (ts_loop ts_init 0)) = Some (100 / 3)
   \<and> TimerEnd \<notin> set (snd (ts_loop ts_init 0))"
  by (simp add: ts_loop_def ts_init_def Let_def STEP_ANGLE_def fdiv_def SAMPLES_PER_CYCLE_def)

end
